theory Spec2Isabelle
  imports Main "HOL-Library.Sublist"
begin

section \<open>The table threaded through \<open>Clean\<close>\<close>

text \<open>
  \<open>Cleaner.py\<close> keeps one polars data frame in \<open>self.df\<close>. Its first column is the
  identifier column (renamed to \<open>protein\<close> by the constructor), a column of strings
  in which a cell may be null; every other column holds numbers, a cell of which may
  be null too. A row is kept as the identifier cell together with the remaining
  cells, aligned with the column names after the first one. The numbers are left
  abstract: every definition works for any commutative additive monoid (\<open>int\<close>
  for unbounded integers, \<open>64 word\<close> for a wrapping Int64 column).
\<close>

type_synonym 'a row = "string option \<times> 'a option list"

record 'a table =
  columns :: "string list"
  rows :: "'a row list"

text \<open>The exceptions the code can end with, and polars' \<open>SchemaError\<close>, which it never raises.\<close>

datatype error = NoDataError | IndexError | DuplicateError | TypeError | SchemaError

subsection \<open>Polars expressions, evaluated on one row\<close>

text \<open>
  A boolean polars expression is null where an operand is null; \<open>&\<close>, \<open>|\<close> and
  \<open>~\<close> follow Kleene's three-valued logic, and \<open>filter\<close> keeps exactly the rows
  on which the predicate is true (a null predicate drops the row).
\<close>

type_synonym kbool = "bool option"

fun k_and :: "kbool \<Rightarrow> kbool \<Rightarrow> kbool" where
  "k_and (Some False) _ = Some False"
| "k_and _ (Some False) = Some False"
| "k_and (Some True) (Some True) = Some True"
| "k_and _ _ = None"

fun k_or :: "kbool \<Rightarrow> kbool \<Rightarrow> kbool" where
  "k_or (Some True) _ = Some True"
| "k_or _ (Some True) = Some True"
| "k_or (Some False) (Some False) = Some False"
| "k_or _ _ = None"

definition k_not :: "kbool \<Rightarrow> kbool" where
  "k_not b = map_option Not b"

definition is_null :: "'b option \<Rightarrow> kbool" where
  "is_null v = Some (v = None)"

definition is_not_null :: "'b option \<Rightarrow> kbool" where
  "is_not_null v = Some (v \<noteq> None)"

definition k_eq :: "'b option \<Rightarrow> 'b \<Rightarrow> kbool" where
  "k_eq v x = map_option (\<lambda>y. y = x) v"

definition k_ne :: "'b option \<Rightarrow> 'b \<Rightarrow> kbool" where
  "k_ne v x = map_option (\<lambda>y. y \<noteq> x) v"

definition filter_rows :: "('a row \<Rightarrow> kbool) \<Rightarrow> 'a table \<Rightarrow> 'a table" where
  "filter_rows p t = t\<lparr>rows := filter (\<lambda>r. p r = Some True) (rows t)\<rparr>"


definition col_protein :: "'a row \<Rightarrow> string option" where
  "col_protein r = fst r"

definition col :: "'a table \<Rightarrow> string \<Rightarrow> 'a row \<Rightarrow> 'a option" where
  "col t c r = (case map_of (zip (tl (columns t)) (snd r)) c of Some v \<Rightarrow> v | None \<Rightarrow> None)"

subsection \<open>String functions\<close>

fun starts_with :: "string \<Rightarrow> string \<Rightarrow> bool" where
  "starts_with _ [] = True"
| "starts_with [] (_ # _) = False"
| "starts_with (c # s) (d # p) = (c = d \<and> starts_with s p)"

fun contains_lit :: "string \<Rightarrow> string \<Rightarrow> bool" where
  "contains_lit [] p = (p = [])"
| "contains_lit (c # s) p = (starts_with (c # s) p \<or> contains_lit s p)"

text \<open>
  \<open>str.contains\<close> takes a regular expression. The three patterns of the code are
  literals joined by \<open>|\<close> with no other metacharacter, so the pattern matches
  somewhere in a string exactly when one of its alternatives occurs in it.
\<close>

fun regex_alts :: "string \<Rightarrow> string list" where
  "regex_alts [] = [[]]"
| "regex_alts (c # s) =
     (if c = CHR ''|'' then [] # regex_alts s
      else (case regex_alts s of [] \<Rightarrow> [[c]] | w # ws \<Rightarrow> (c # w) # ws))"

definition str_contains :: "string option \<Rightarrow> string \<Rightarrow> kbool" where
  "str_contains v pat = map_option (\<lambda>s. list_ex (contains_lit s) (regex_alts pat)) v"

definition str_starts_with :: "string option \<Rightarrow> string \<Rightarrow> kbool" where
  "str_starts_with v p = map_option (\<lambda>s. starts_with s p) v"

text \<open>
  \<open>str.to_lowercase\<close>, on the ASCII letters. (No character outside ASCII has a
  lower-case form that is one of the letters of \<open>contam\<close>.)
\<close>

definition to_lower_char :: "char \<Rightarrow> char" where
  "to_lower_char c =
     (case map_of (zip ''ABCDEFGHIJKLMNOPQRSTUVWXYZ'' ''abcdefghijklmnopqrstuvwxyz'') c of
        Some d \<Rightarrow> d | None \<Rightarrow> c)"

definition str_to_lowercase :: "string option \<Rightarrow> string option" where
  "str_to_lowercase v = map_option (map to_lower_char) v"

text \<open>
  \<open>str.extract(r"RepID=([^|]+)", 1)\<close>: the leftmost place where \<open>RepID=\<close> is
  followed by at least one character other than \<open>|\<close>; the group is the longest run
  of such characters there. No match gives null.
\<close>

fun extract_repid :: "string \<Rightarrow> string option" where
  "extract_repid [] = None"
| "extract_repid (c # s) =
     (if starts_with (c # s) ''RepID='' \<and> takeWhile (\<lambda>x. x \<noteq> CHR ''|'') (drop 6 (c # s)) \<noteq> []
      then Some (takeWhile (\<lambda>x. x \<noteq> CHR ''|'') (drop 6 (c # s)))
      else extract_repid s)"

text \<open>
  The pattern in words, to compare \<open>extract_repid\<close> with: it matches at position
  \<open>i\<close> of \<open>s\<close> when the six characters from \<open>i\<close> on are \<open>RepID=\<close> and
  the character after them exists and is not \<open>|\<close>.
\<close>

definition repid_match_at :: "string \<Rightarrow> nat \<Rightarrow> bool" where
  "repid_match_at s i \<longleftrightarrow>
     take 6 (drop i s) = ''RepID='' \<and> i + 6 < length s \<and> s ! (i + 6) \<noteq> CHR ''|''"

definition str_extract :: "string option \<Rightarrow> string option" where
  "str_extract v = (case v of None \<Rightarrow> None | Some s \<Rightarrow> extract_repid s)"

definition when_then_otherwise :: "kbool \<Rightarrow> 'b \<Rightarrow> 'b \<Rightarrow> 'b" where
  "when_then_otherwise c a b = (if c = Some True then a else b)"

text \<open>\<open>"|".join(blacklist)\<close>.\<close>

fun join :: "string \<Rightarrow> string list \<Rightarrow> string" where
  "join sep [] = []"
| "join sep [w] = w"
| "join sep (w # ws) = w @ sep @ join sep ws"

section \<open>The class \<open>Clean\<close>\<close>

text \<open>
  \<open>pl.read_excel(file_path)\<close>, with its defaults: the argument stands for the
  content of the sheet, given as the frame it parses to. A sheet with no data has no
  column, and the reader raises NoDataError on it instead of returning a frame.
\<close>

definition read_excel :: "'a table \<Rightarrow> error + 'a table" where
  "read_excel sheet = (if columns sheet = [] then Inl NoDataError else Inr sheet)"

text \<open>
  \<open>__init__\<close>: the frame is read; \<open>df.columns[0]\<close> raises IndexError on a frame
  with no column; \<open>rename\<close> raises DuplicateError when another column is already
  called \<open>protein\<close>.
\<close>

definition init :: "'a table \<Rightarrow> error + 'a table" where
  "init file_path =
     (case read_excel file_path of
        Inl e \<Rightarrow> Inl e
      | Inr df \<Rightarrow>
          (case columns df of
             [] \<Rightarrow> Inl IndexError
           | original_first # rest \<Rightarrow>
               if ''protein'' \<in> set rest then Inl DuplicateError
               else Inr (df\<lparr>columns := ''protein'' # rest\<rparr>)))"

definition value_cols :: "'a table \<Rightarrow> string list" where
  "value_cols t = filter (\<lambda>c. c \<noteq> ''protein'') (columns t)"

definition step1 :: "'a table \<Rightarrow> 'a table" where
  "step1 t = filter_rows (\<lambda>r. k_and (is_not_null (col_protein r)) (k_ne (col_protein r) '''')) t"

text \<open>
  The loop of \<open>__step2__\<close> builds the expression \<open>mask\<close> (here \<open>msk\<close>); it is still Python's
  \<open>None\<close> when there is no value column, and \<open>~None\<close> raises TypeError.
\<close>

definition step2_mask :: "('a::zero) table \<Rightarrow> ('a row \<Rightarrow> kbool) option" where
  "step2_mask t =
     foldl (\<lambda>msk c.
              let cond = (\<lambda>r. k_or (is_null (col t c r)) (k_eq (col t c r) 0))
              in (case msk of None \<Rightarrow> Some cond
                  | Some m \<Rightarrow> Some (\<lambda>r. k_and (m r) (cond r))))
       None (value_cols t)"

definition step2 :: "('a::zero) table \<Rightarrow> error + 'a table" where
  "step2 t =
     (case step2_mask t of
        None \<Rightarrow> Inl TypeError
      | Some msk \<Rightarrow> Inr (filter_rows (\<lambda>r. k_not (msk r)) t))"

definition step3 :: "'a table \<Rightarrow> 'a table" where
  "step3 t = filter_rows (\<lambda>r. k_not (str_contains (str_to_lowercase (col_protein r)) ''contam'')) t"

definition step4 :: "'a table \<Rightarrow> 'a table" where
  "step4 t = filter_rows (\<lambda>r. k_not (str_contains (col_protein r) ''RepID=unknown'')) t"

definition step5 :: "'a table \<Rightarrow> 'a table" where
  "step5 t =
     t\<lparr>rows := map (\<lambda>r. (when_then_otherwise (str_starts_with (col_protein r) ''k77'')
                            (str_extract (col_protein r)) (col_protein r), snd r))
                 (rows t)\<rparr>"

definition blacklist :: "string list" where
  "blacklist =
     [''W1WC08_9ZZZZ'', ''W1WM01_9ZZZZ'', ''W1Y9K7_9ZZZZ'', ''W1YGV0_9ZZZZ'',
      ''W1YKP9_9ZZZZ'', ''W1YP67_9ZZZZ'', ''W1YRV8_9ZZZZ'', ''A0A0F9P276_9ZZZZ'',
      ''J9G8E8_9ZZZZ'', ''J9GD12_9ZZZZ'']"

definition pattern :: string where
  "pattern = join ''|'' blacklist"

definition step6 :: "'a table \<Rightarrow> 'a table" where
  "step6 t = filter_rows (\<lambda>r. k_not (str_contains (col_protein r) pattern)) t"

text \<open>
  \<open>group_by("protein", maintain_order=True)\<close>: one group per distinct identifier
  (null is a key like any other), in the order in which the identifiers first occur.
  \<open>pl.sum(c)\<close> adds the non-null cells of the group and is 0 when there is none.
  The result has the key column first, then one column per aggregation.
\<close>

fun group_keys :: "'b list \<Rightarrow> 'b list \<Rightarrow> 'b list" where
  "group_keys seen [] = []"
| "group_keys seen (k # ks) =
     (if k \<in> set seen then group_keys seen ks else k # group_keys (k # seen) ks)"

definition pl_sum :: "('a::comm_monoid_add) table \<Rightarrow> string \<Rightarrow> 'a row list \<Rightarrow> 'a" where
  "pl_sum t c grp = sum_list (List.map_filter (col t c) grp)"

definition step7 :: "('a::comm_monoid_add) table \<Rightarrow> 'a table" where
  "step7 t =
     \<lparr>columns = ''protein'' # value_cols t,
      rows = map (\<lambda>k. (k, map (\<lambda>c. Some (pl_sum t c (filter (\<lambda>r. col_protein r = k) (rows t))))
                              (value_cols t)))
                 (group_keys [] (map col_protein (rows t)))\<rparr>"

text \<open>\<open>run_filters\<close>: the seven steps in order; an exception of a step ends the run.\<close>

definition run_filters :: "('a::comm_monoid_add) table \<Rightarrow> error + 'a table" where
  "run_filters t =
     (case step2 (step1 t) of
        Inl e \<Rightarrow> Inl e
      | Inr t2 \<Rightarrow> Inr (step7 (step6 (step5 (step4 (step3 t2))))))"

text \<open>The script's main part: construct \<open>Clean\<close>, then \<open>run_filters\<close>.\<close>

definition pipeline :: "('a::comm_monoid_add) table \<Rightarrow> error + 'a table" where
  "pipeline df = (case init df of Inl e \<Rightarrow> Inl e | Inr t \<Rightarrow> run_filters t)"


text \<open>
  What the first six steps leave of an identifier: it is not empty and contains
  neither the contaminant marker (in any case), nor the unknown-RepID marker, nor an
  entry of the blacklist.
\<close>

definition clean_identifier :: "string \<Rightarrow> bool" where
  "clean_identifier s \<longleftrightarrow>
     s \<noteq> [] \<and> \<not> sublist ''contam'' (map to_lower_char s) \<and> \<not> sublist ''RepID=unknown'' s \<and>
     (\<forall>b \<in> set blacklist. \<not> sublist b s)"

section \<open>Facts about the expressions and the steps\<close>

lemma starts_with_prefix: "starts_with s p \<longleftrightarrow> prefix p s"
  by (induction s p rule: starts_with.induct) auto

lemma contains_lit_sublist: "contains_lit s p \<longleftrightarrow> sublist p s"
  by (induction s) (auto simp: starts_with_prefix sublist_Cons_right)

lemma columns_filter_rows [simp]: "columns (filter_rows p t) = columns t"
  by (simp add: filter_rows_def)

lemma rows_filter_rows [simp]: "rows (filter_rows p t) = filter (\<lambda>r. p r = Some True) (rows t)"
  by (simp add: filter_rows_def)

lemma regex_alts_contam: "regex_alts ''contam'' = [''contam'']"
  by simp

lemma regex_alts_unknown: "regex_alts ''RepID=unknown'' = [''RepID=unknown'']"
  by simp

lemma regex_alts_pattern: "regex_alts pattern = blacklist"
  by (simp add: pattern_def blacklist_def)

lemma step1_keep:
  "(k_and (is_not_null (col_protein r)) (k_ne (col_protein r) '''') = Some True)
     \<longleftrightarrow> (fst r \<noteq> None \<and> fst r \<noteq> Some '''')"
  by (cases "fst r") (auto simp: col_protein_def is_not_null_def k_ne_def)

lemma step1_rows: "rows (step1 t) = filter (\<lambda>r. fst r \<noteq> None \<and> fst r \<noteq> Some '''') (rows t)"
  by (simp add: step1_def step1_keep)

lemma not_contains_keep:
  "(k_not (str_contains v pat) = Some True)
     \<longleftrightarrow> (\<exists>s. v = Some s \<and> (\<forall>p \<in> set (regex_alts pat). \<not> sublist p s))"
  by (cases v) (auto simp: k_not_def str_contains_def list_ex_iff contains_lit_sublist)

lemma step3_rows:
  "rows (step3 t) =
     filter (\<lambda>r. \<exists>s. fst r = Some s \<and> \<not> sublist ''contam'' (map to_lower_char s)) (rows t)"
  unfolding step3_def rows_filter_rows not_contains_keep regex_alts_contam
  by (rule filter_cong) (auto simp: str_to_lowercase_def col_protein_def)

lemma step4_rows:
  "rows (step4 t) = filter (\<lambda>r. \<exists>s. fst r = Some s \<and> \<not> sublist ''RepID=unknown'' s) (rows t)"
  unfolding step4_def rows_filter_rows not_contains_keep regex_alts_unknown
  by (rule filter_cong) (auto simp: col_protein_def)

lemma step6_rows:
  "rows (step6 t) =
     filter (\<lambda>r. \<exists>s. fst r = Some s \<and> (\<forall>b \<in> set blacklist. \<not> sublist b s)) (rows t)"
  unfolding step6_def rows_filter_rows not_contains_keep regex_alts_pattern
  by (rule filter_cong) (auto simp: col_protein_def)

lemma step5_rows:
  "rows (step5 t) =
     map (\<lambda>r. (case fst r of None \<Rightarrow> None
               | Some s \<Rightarrow> if prefix ''k77'' s then extract_repid s else Some s, snd r)) (rows t)"
  by (auto simp: step5_def when_then_otherwise_def str_starts_with_def str_extract_def
        col_protein_def starts_with_prefix split: option.splits)

lemma extract_repid_no_RepID: "\<not> sublist ''RepID='' s \<Longrightarrow> extract_repid s = None"
  by (induction s) (auto simp: starts_with_prefix sublist_Cons_right)

lemma extract_repid_SomeD:
  "extract_repid s = Some v \<Longrightarrow>
     \<exists>pre post. s = pre @ ''RepID='' @ v @ post \<and> v \<noteq> [] \<and> CHR ''|'' \<notin> set v \<and>
       (post = [] \<or> hd post = CHR ''|'')"
proof (induction s)
  case Nil
  then show ?case by simp
next
  case (Cons c s)
  let ?P = "\<lambda>x. x \<noteq> CHR ''|''"
  show ?case
  proof (cases "starts_with (c # s) ''RepID='' \<and> takeWhile ?P (drop 6 (c # s)) \<noteq> []")
    case True
    then obtain rest where rest: "c # s = ''RepID='' @ rest"
      by (auto simp: starts_with_prefix prefix_def)
    have v: "v = takeWhile ?P rest" using True Cons.prems rest by simp
    have "rest = v @ dropWhile ?P rest" by (simp add: v)
    moreover have "dropWhile ?P rest = [] \<or> hd (dropWhile ?P rest) = CHR ''|''"
      using hd_dropWhile [of ?P rest] by auto
    moreover have "CHR ''|'' \<notin> set v" unfolding v by (auto dest: set_takeWhileD)
    moreover have "v \<noteq> []" using True rest v by simp
    ultimately show ?thesis using rest
      by (intro exI [of _ "[]"] exI [of _ "dropWhile ?P rest"]) simp
  next
    case False
    then have "extract_repid (c # s) = extract_repid s"
      by (simp only: extract_repid.simps if_False)
    then have "extract_repid s = Some v" using Cons.prems by simp
    then obtain pre post where "s = pre @ ''RepID='' @ v @ post" "v \<noteq> []" "CHR ''|'' \<notin> set v"
      "post = [] \<or> hd post = CHR ''|''" using Cons.IH by blast
    then show ?thesis by (intro exI [of _ "c # pre"] exI [of _ post]) simp
  qed
qed

lemma set_group_keys: "set (group_keys seen ks) = set ks - set seen"
  by (induction ks arbitrary: seen) auto

lemma distinct_group_keys: "distinct (group_keys seen ks)"
  by (induction ks arbitrary: seen) (auto simp: set_group_keys)

lemma col_protein_eq: "col_protein = fst"
  by (rule ext) (simp add: col_protein_def)

lemma rows_step7_keys: "map fst (rows (step7 t)) = group_keys [] (map fst (rows t))"
  by (simp add: step7_def col_protein_eq comp_def)

lemma value_cols_step7: "value_cols (step7 t) = value_cols t"
  by (simp add: step7_def value_cols_def)

lemma columns_step1: "columns (step1 t) = columns t" by (simp add: step1_def)
lemma columns_step3: "columns (step3 t) = columns t" by (simp add: step3_def)
lemma columns_step4: "columns (step4 t) = columns t" by (simp add: step4_def)
lemma columns_step5: "columns (step5 t) = columns t" by (simp add: step5_def)
lemma columns_step6: "columns (step6 t) = columns t" by (simp add: step6_def)
lemma columns_step2: "step2 t = Inr t' \<Longrightarrow> columns t' = columns t"
  by (auto simp: step2_def split: option.splits)

lemma value_cols_cong: "columns t = columns t' \<Longrightarrow> value_cols t = value_cols t'"
  by (simp add: value_cols_def)

lemma run_filters_value_cols:
  assumes "run_filters t = Inr out"
  shows "value_cols out = value_cols t" and "columns out = ''protein'' # value_cols t"
proof -
  from assms obtain t2 where t2: "step2 (step1 t) = Inr t2"
    and out: "out = step7 (step6 (step5 (step4 (step3 t2))))"
    by (auto simp: run_filters_def split: sum.splits)
  have c: "columns (step6 (step5 (step4 (step3 t2)))) = columns t"
    using columns_step2 [OF t2]
    by (simp add: columns_step6 columns_step5 columns_step4 columns_step3 columns_step1)
  show "value_cols out = value_cols t"
    unfolding out value_cols_step7 by (rule value_cols_cong [OF c])
  show "columns out = ''protein'' # value_cols t"
    unfolding out using value_cols_cong [OF c] by (simp add: step7_def)
qed

lemma init_columns:
  "init df = Inr t \<Longrightarrow> columns t = ''protein'' # tl (columns df) \<and> value_cols t = tl (columns df)
     \<and> rows t = rows df"
  by (auto simp: init_def read_excel_def value_cols_def filter_id_conv split: list.splits if_splits)

lemma step6_no_null: "r \<in> set (rows (step6 t)) \<Longrightarrow> fst r \<noteq> None"
  by (auto simp: step6_rows)

lemma step7_ids: "fst ` set (rows (step7 t)) = fst ` set (rows t)"
  using arg_cong [OF rows_step7_keys, of set t] by (simp add: set_group_keys)

lemma k_and_Some: "k_and (Some a) (Some b) = Some (a \<and> b)"
  by (cases a; cases b) simp_all

lemma k_or_Some: "k_or (Some a) (Some b) = Some (a \<or> b)"
  by (cases a; cases b) simp_all

lemma step2_cond: "k_or (is_null v) (k_eq v 0) = Some (v = None \<or> v = Some 0)"
  by (cases v) (simp_all add: is_null_def k_eq_def k_or_Some)

lemma step2_mask_foldl:
  "foldl (\<lambda>msk c.
              let cond = (\<lambda>r. k_or (is_null (f c r)) (k_eq (f c r) 0))
              in (case msk of None \<Rightarrow> Some cond
                  | Some m \<Rightarrow> Some (\<lambda>r. k_and (m r) (cond r))))
       (Some m0) cs = Some m \<Longrightarrow>
   (\<forall>r. m0 r = Some (P r)) \<Longrightarrow>
   m r = Some (P r \<and> (\<forall>c \<in> set cs. f c r = None \<or> f c r = Some 0))"
proof (induction cs arbitrary: m0 P)
  case Nil
  from Nil.prems(1) have "m = m0" by simp
  then show ?case using Nil.prems(2) by simp
next
  case (Cons c cs)
  let ?m1 = "\<lambda>r. k_and (m0 r) (k_or (is_null (f c r)) (k_eq (f c r) 0))"
  have 1: "\<forall>r. ?m1 r = Some (P r \<and> (f c r = None \<or> f c r = Some 0))"
    using Cons.prems(2) by (simp add: step2_cond k_and_Some)
  from Cons.prems(1) have "foldl (\<lambda>msk c.
              let cond = (\<lambda>r. k_or (is_null (f c r)) (k_eq (f c r) 0))
              in (case msk of None \<Rightarrow> Some cond
                  | Some m \<Rightarrow> Some (\<lambda>r. k_and (m r) (cond r))))
       (Some ?m1) cs = Some m" by (simp add: Let_def)
  from Cons.IH [OF this 1] show ?case by auto
qed

lemma step2_foldl_Some:
  "\<exists>m. foldl (\<lambda>msk c.
              let cond = (\<lambda>r. k_or (is_null (f c r)) (k_eq (f c r) 0))
              in (case msk of None \<Rightarrow> Some cond
                  | Some m \<Rightarrow> Some (\<lambda>r. k_and (m r) (cond r))))
       (Some m0) cs = Some m"
  by (induction cs arbitrary: m0) (simp_all add: Let_def)

lemma step2_mask_None: "value_cols t = [] \<Longrightarrow> step2_mask t = None"
  by (simp add: step2_mask_def)

lemma step2_mask_Some:
  assumes "value_cols t \<noteq> []"
  shows "\<exists>m. step2_mask t = Some m \<and>
           (\<forall>r. m r = Some (\<forall>c \<in> set (value_cols t). col t c r = None \<or> col t c r = Some 0))"
proof -
  from assms obtain c cs where vc: "value_cols t = c # cs" by (cases "value_cols t") auto
  let ?m0 = "\<lambda>r. k_or (is_null (col t c r)) (k_eq (col t c r) 0)"
  obtain m where m: "foldl (\<lambda>msk c.
              let cond = (\<lambda>r. k_or (is_null (col t c r)) (k_eq (col t c r) 0))
              in (case msk of None \<Rightarrow> Some cond
                  | Some m \<Rightarrow> Some (\<lambda>r. k_and (m r) (cond r))))
       (Some ?m0) cs = Some m"
    using step2_foldl_Some [of "col t" ?m0 cs] by blast
  have 0: "\<forall>r. ?m0 r = Some (col t c r = None \<or> col t c r = Some 0)"
    by (simp add: step2_cond)
  have "step2_mask t = Some m"
    using m by (simp add: step2_mask_def vc Let_def)
  moreover have "\<forall>r. m r = Some (\<forall>c \<in> set (value_cols t). col t c r = None \<or> col t c r = Some 0)"
    using step2_mask_foldl [OF m 0] by (simp add: vc)
  ultimately show ?thesis by blast
qed

lemma step2_rows:
  assumes "value_cols t \<noteq> []"
  shows "step2 t = Inr (t\<lparr>rows := filter (\<lambda>r. \<not> (\<forall>c \<in> set (value_cols t). col t c r = None \<or> col t c r = Some 0)) (rows t)\<rparr>)"
proof -
  from step2_mask_Some [OF assms] obtain m where m: "step2_mask t = Some m"
    and mr: "\<And>r. m r = Some (\<forall>c \<in> set (value_cols t). col t c r = None \<or> col t c r = Some 0)"
    by blast
  show ?thesis by (simp add: step2_def m filter_rows_def k_not_def mr)
qed








lemma run_filters_InrD:
  assumes "run_filters t = Inr out"
  obtains t2 where "step2 (step1 t) = Inr t2" "out = step7 (step6 (step5 (step4 (step3 t2))))"
  using assms by (auto simp: run_filters_def split: sum.splits)

lemma pipeline_InrD:
  assumes "pipeline df = Inr out"
  obtains t where "init df = Inr t" "run_filters t = Inr out"
  using assms by (auto simp: pipeline_def split: sum.splits)

lemma step7_ids_not_null:
  assumes "\<forall>r \<in> set (rows t). fst r \<noteq> None"
  shows "\<forall>r \<in> set (rows (step7 t)). fst r \<noteq> None"
proof
  fix r assume "r \<in> set (rows (step7 t))"
  then have "fst r \<in> fst ` set (rows t)" using step7_ids [of t] by blast
  then show "fst r \<noteq> None" using assms by force
qed

lemma sublist_map: "sublist xs ys \<Longrightarrow> sublist (map f xs) (map f ys)"
  by (metis map_append sublist_appendI sublist_def)

lemma sublist_trans: "sublist xs ys \<Longrightarrow> sublist ys zs \<Longrightarrow> sublist xs zs"
  by (metis append.assoc sublist_def)

lemma extract_repid_sublist:
  assumes "extract_repid s = Some v"
  shows "sublist v s" and "v \<noteq> []" and "length v < length s"
proof -
  from extract_repid_SomeD [OF assms] obtain pre post
    where s: "s = pre @ ''RepID='' @ v @ post" and v: "v \<noteq> []" by blast
  have "s = (pre @ ''RepID='') @ v @ post" using s by simp
  then show "sublist v s" unfolding sublist_def by blast
  show "v \<noteq> []" by (rule v)
  show "length v < length s" by (subst s) simp
qed

lemma step2_InrD:
  assumes "step2 t = Inr t2"
  shows "value_cols t \<noteq> []"
    and "t2 = t\<lparr>rows := filter (\<lambda>r. \<not> (\<forall>c \<in> set (value_cols t). col t c r = None \<or> col t c r = Some 0)) (rows t)\<rparr>"
proof -
  show ne: "value_cols t \<noteq> []"
    using assms step2_mask_None [of t] by (auto simp: step2_def)
  from step2_rows [OF ne] assms
  show "t2 = t\<lparr>rows := filter (\<lambda>r. \<not> (\<forall>c \<in> set (value_cols t). col t c r = None \<or> col t c r = Some 0)) (rows t)\<rparr>"
    by simp
qed

lemma run_filters_ids_clean:
  assumes run: "run_filters t = Inr out" and r: "r \<in> set (rows out)"
  shows "\<exists>s. fst r = Some s \<and> clean_identifier s"
proof -
  from run obtain t2 where t2: "step2 (step1 t) = Inr t2"
    and out: "out = step7 (step6 (step5 (step4 (step3 t2))))"
    by (rule run_filters_InrD)
  let ?t4 = "step4 (step3 t2)"
  from r have "fst r \<in> fst ` set (rows (step6 (step5 ?t4)))"
    unfolding out using step7_ids by blast
  then obtain r6 where r6: "r6 \<in> set (rows (step6 (step5 ?t4)))" and fr: "fst r = fst r6"
    by auto
  from r6 obtain s where s: "fst r6 = Some s" and bl: "\<forall>b \<in> set blacklist. \<not> sublist b s"
    and r5: "r6 \<in> set (rows (step5 ?t4))"
    by (auto simp: step6_rows)
  from r5 obtain r4 where r4: "r4 \<in> set (rows ?t4)"
    and rw: "fst r6 = (case fst r4 of None \<Rightarrow> None
               | Some s \<Rightarrow> if prefix ''k77'' s then extract_repid s else Some s)"
    by (auto simp: step5_rows)
  from r4 obtain s4 where s4: "fst r4 = Some s4" and unk: "\<not> sublist ''RepID=unknown'' s4"
    and r3: "r4 \<in> set (rows (step3 t2))"
    by (auto simp: step4_rows)
  from r3 have con: "\<not> sublist ''contam'' (map to_lower_char s4)" and r2: "r4 \<in> set (rows t2)"
    using s4 by (auto simp: step3_rows)
  from r2 have "r4 \<in> set (rows (step1 t))"
    using step2_InrD(2) [OF t2] by simp
  then have ne: "s4 \<noteq> []" using s4 by (auto simp: step1_rows)
  have "clean_identifier s"
  proof (cases "prefix ''k77'' s4")
    case True
    then have ex: "extract_repid s4 = Some s" using rw s s4 by simp
    note sub = extract_repid_sublist [OF ex]
    have "\<not> sublist ''contam'' (map to_lower_char s)"
      using con sublist_map [OF sub(1), of to_lower_char] sublist_trans by blast
    moreover have "\<not> sublist ''RepID=unknown'' s"
      using unk sub(1) sublist_trans by blast
    ultimately show ?thesis using sub(2) bl by (simp add: clean_identifier_def)
  next
    case False
    then have "s = s4" using rw s s4 by simp
    then show ?thesis using ne con unk bl by (simp add: clean_identifier_def)
  qed
  then show ?thesis using fr s by simp
qed

lemma filter_rows_id: "\<forall>r \<in> set (rows t). p r = Some True \<Longrightarrow> filter_rows p t = t"
  by (simp add: filter_rows_def filter_id_conv)

lemma step1_id:
  assumes "\<forall>r \<in> set (rows t). \<exists>s. fst r = Some s \<and> clean_identifier s"
  shows "step1 t = t"
  unfolding step1_def
  by (rule filter_rows_id) (use assms in \<open>auto simp: step1_keep clean_identifier_def\<close>)

lemma step3_id:
  assumes "\<forall>r \<in> set (rows t). \<exists>s. fst r = Some s \<and> clean_identifier s"
  shows "step3 t = t"
  unfolding step3_def
  by (rule filter_rows_id)
    (use assms in \<open>auto simp: not_contains_keep regex_alts_contam str_to_lowercase_def
        col_protein_def clean_identifier_def\<close>)

lemma step4_id:
  assumes "\<forall>r \<in> set (rows t). \<exists>s. fst r = Some s \<and> clean_identifier s"
  shows "step4 t = t"
  unfolding step4_def
  by (rule filter_rows_id)
    (use assms in \<open>auto simp: not_contains_keep regex_alts_unknown col_protein_def clean_identifier_def\<close>)

lemma step6_id:
  assumes "\<forall>r \<in> set (rows t). \<exists>s. fst r = Some s \<and> clean_identifier s"
  shows "step6 t = t"
  unfolding step6_def
  by (rule filter_rows_id)
    (use assms in \<open>auto simp: not_contains_keep regex_alts_pattern col_protein_def clean_identifier_def\<close>)

lemma step5_id:
  assumes "\<forall>r \<in> set (rows t). \<forall>s. fst r = Some s \<longrightarrow> \<not> prefix ''k77'' s"
  shows "step5 t = t"
proof -
  have "map (\<lambda>r. (when_then_otherwise (str_starts_with (col_protein r) ''k77'')
                            (str_extract (col_protein r)) (col_protein r), snd r)) (rows t) = rows t"
    by (rule map_idI)
      (use assms in \<open>auto simp: when_then_otherwise_def str_starts_with_def col_protein_def
          starts_with_prefix prod_eq_iff\<close>)
  then show ?thesis by (simp add: step5_def)
qed

lemma step2_id:
  assumes "value_cols t \<noteq> []"
    and "\<forall>r \<in> set (rows t). \<not> (\<forall>c \<in> set (value_cols t). col t c r = None \<or> col t c r = Some 0)"
  shows "step2 t = Inr t"
  using assms(2) by (simp add: step2_rows [OF assms(1)] filter_id_conv)

lemma group_keys_distinct_id:
  "distinct ks \<Longrightarrow> set ks \<inter> set seen = {} \<Longrightarrow> group_keys seen ks = ks"
  by (induction ks arbitrary: seen) auto

lemma filter_key_singleton:
  "distinct ks \<Longrightarrow> k \<in> set ks \<Longrightarrow> filter (\<lambda>r. fst r = k) (map (\<lambda>k. (k, f k)) ks) = [(k, f k)]"
  by (induction ks) (auto simp: filter_empty_conv)

lemma col_summed_row:
  assumes "tl (columns t) = vc" "c \<in> set vc"
  shows "col t c (k, map (\<lambda>c. Some (S c)) vc) = Some (S c)"
  using assms by (simp add: col_def map_of_zip_map)

lemma step7_form:
  "step7 t =
     \<lparr>columns = ''protein'' # value_cols t,
      rows = map (\<lambda>k. (k, map (\<lambda>c. Some (pl_sum t c (filter (\<lambda>r. fst r = k) (rows t)))) (value_cols t)))
                 (group_keys [] (map fst (rows t)))\<rparr>"
  by (simp add: step7_def col_protein_eq)

lemma step7_idempotent: "step7 (step7 t) = step7 t"
proof -
  define vc where "vc = value_cols t"
  define ks where "ks = group_keys [] (map fst (rows t))"
  define S where "S = (\<lambda>k c. pl_sum t c (filter (\<lambda>r. fst r = k) (rows t)))"
  define T where "T = step7 t"
  have T: "T = \<lparr>columns = ''protein'' # vc, rows = map (\<lambda>k. (k, map (\<lambda>c. Some (S k c)) vc)) ks\<rparr>"
    unfolding T_def vc_def ks_def S_def by (rule step7_form)
  have dist: "distinct ks" unfolding ks_def by (rule distinct_group_keys)
  have vcT: "value_cols T = vc" unfolding T_def vc_def by (rule value_cols_step7)
  have tlT: "tl (columns T) = vc" by (simp add: T)
  have keys: "group_keys [] (map fst (rows T)) = ks"
    using dist by (simp add: T comp_def group_keys_distinct_id)
  have sum: "pl_sum T c (filter (\<lambda>r. fst r = k) (rows T)) = S k c"
    if "k \<in> set ks" "c \<in> set vc" for k c
  proof -
    have "filter (\<lambda>r. fst r = k) (rows T) = [(k, map (\<lambda>c. Some (S k c)) vc)]"
      using filter_key_singleton [OF dist that(1)] by (simp add: T)
    then show ?thesis
      by (simp add: pl_sum_def col_summed_row [OF tlT that(2)])
  qed
  have rws: "map (\<lambda>k. (k, map (\<lambda>c. Some (pl_sum T c (filter (\<lambda>r. fst r = k) (rows T)))) vc)) ks
      = map (\<lambda>k. (k, map (\<lambda>c. Some (S k c)) vc)) ks"
    by (rule map_cong [OF refl]) (simp add: sum cong: map_cong)
  have "step7 T = \<lparr>columns = ''protein'' # vc,
      rows = map (\<lambda>k. (k, map (\<lambda>c. Some (pl_sum T c (filter (\<lambda>r. fst r = k) (rows T)))) vc)) ks\<rparr>"
    by (subst step7_form) (simp add: vcT keys)
  also have "\<dots> = T"
    unfolding rws by (rule T [symmetric])
  finally show ?thesis unfolding T_def .
qed

lemma step7_row_zero:
  assumes "r \<in> set (rows (step7 t))"
  shows "(\<forall>c \<in> set (value_cols (step7 t)). col (step7 t) c r = None \<or> col (step7 t) c r = Some 0)
           \<longleftrightarrow> list_all (\<lambda>v. v = None \<or> v = Some 0) (snd r)"
proof -
  define vc where "vc = value_cols t"
  define S where "S = (\<lambda>k c. pl_sum t c (filter (\<lambda>r. fst r = k) (rows t)))"
  from assms obtain k where r: "r = (k, map (\<lambda>c. Some (S k c)) vc)"
    unfolding vc_def S_def by (subst (asm) step7_form) auto
  have tl: "tl (columns (step7 t)) = vc" by (simp add: step7_form vc_def)
  show ?thesis
    unfolding value_cols_step7 vc_def [symmetric] r
    by (simp add: col_summed_row [OF tl] list_all_iff)
qed

lemma rerun_drops_zero_sum_row:
  "run_filters \<lparr>columns = [''protein'', ''S1''],
                 rows = [(Some ''P1'', [Some (1::int)]), (Some ''P1'', [Some (- 1)])]\<rparr>
     = Inr \<lparr>columns = [''protein'', ''S1''], rows = [(Some ''P1'', [Some 0])]\<rparr>
   \<and> run_filters \<lparr>columns = [''protein'', ''S1''], rows = [(Some ''P1'', [Some (0::int)])]\<rparr>
     = Inr \<lparr>columns = [''protein'', ''S1''], rows = []\<rparr>"
  by code_simp

lemma length_group_keys_le: "length (group_keys seen ks) \<le> length ks"
  by (induction ks arbitrary: seen) (auto simp: le_SucI)

lemma group_keys_full_length:
  "length (group_keys seen ks) = length ks \<Longrightarrow> group_keys seen ks = ks"
proof (induction ks arbitrary: seen)
  case Nil
  then show ?case by simp
next
  case (Cons k ks)
  show ?case
  proof (cases "k \<in> set seen")
    case True
    then have "length (group_keys seen ks) = Suc (length ks)" using Cons.prems by simp
    then show ?thesis using length_group_keys_le [of seen ks] by simp
  next
    case False
    then show ?thesis using Cons by simp
  qed
qed

lemma filter_full_length:
  assumes "length (filter P xs) = length xs"
  shows "filter P xs = xs"
proof -
  have "P x" if "x \<in> set xs" for x
  proof (rule ccontr)
    assume "\<not> P x"
    with that have "length (filter P xs) < length xs" by (rule length_filter_less)
    with assms show False by simp
  qed
  then show ?thesis by (simp add: filter_id_conv)
qed

lemma rerun_fixed_point_needs:
  fixes out :: "('a::comm_monoid_add) table"
  assumes first: "run_filters t = Inr out" and again: "run_filters out = Inr out"
    and r: "r \<in> set (rows out)"
  shows "(\<forall>s. fst r = Some s \<longrightarrow> \<not> prefix ''k77'' s) \<and>
         \<not> list_all (\<lambda>v. v = None \<or> v = Some 0) (snd r)"
proof -
  have clean: "\<forall>r \<in> set (rows out). \<exists>s. fst r = Some s \<and> clean_identifier s"
    using run_filters_ids_clean [OF first] by blast
  from first obtain t2 where out7: "out = step7 (step6 (step5 (step4 (step3 t2))))"
    by (rule run_filters_InrD)
  let ?NZ = "\<lambda>r. \<not> (\<forall>c \<in> set (value_cols out). col out c r = None \<or> col out c r = Some 0)"
  from again obtain o2 where s2: "step2 (step1 out) = Inr o2"
    and out': "out = step7 (step6 (step5 (step4 (step3 o2))))"
    by (rule run_filters_InrD)
  have "step2 out = Inr o2" using s2 by (simp only: step1_id [OF clean])
  then have o2: "o2 = out\<lparr>rows := filter ?NZ (rows out)\<rparr>"
    by (rule step2_InrD(2))
  have "\<forall>r \<in> set (rows o2). \<exists>s. fst r = Some s \<and> clean_identifier s"
    using clean by (simp add: o2)
  then have out'': "out = step7 (step6 (step5 o2))"
    using out' by (simp add: step3_id step4_id)
  have "length (rows out) = length (group_keys [] (map fst (rows (step6 (step5 o2)))))"
    by (subst out'', subst step7_form) simp
  also have "\<dots> \<le> length (rows (step6 (step5 o2)))"
    using length_group_keys_le [of "[]" "map fst (rows (step6 (step5 o2)))"] by simp
  finally have l7: "length (rows out) \<le> length (rows (step6 (step5 o2)))" .
  have l6: "length (rows (step6 (step5 o2))) \<le> length (rows (step5 o2))"
    by (simp add: step6_rows)
  have l5: "length (rows (step5 o2)) = length (filter ?NZ (rows out))"
    by (simp add: step5_rows o2)
  have l2: "length (filter ?NZ (rows out)) \<le> length (rows out)" by simp
  from l7 l6 l5 l2 have "length (filter ?NZ (rows out)) = length (rows out)" by linarith
  then have nz: "filter ?NZ (rows out) = rows out" by (rule filter_full_length)
  then have o2_out: "o2 = out" by (simp add: o2)
  have "\<forall>r \<in> set (rows out). ?NZ r"
    using nz unfolding filter_id_conv .
  with r have "?NZ r" by blast
  then have zero: "\<not> list_all (\<lambda>v. v = None \<or> v = Some 0) (snd r)"
    using step7_row_zero [of r "step6 (step5 (step4 (step3 t2)))"] r unfolding out7 [symmetric]
    by simp
  from l7 l6 l5 l2 have "length (rows (step6 (step5 out))) = length (rows (step5 out))"
    unfolding o2_out by linarith
  then have s6: "rows (step6 (step5 out)) = rows (step5 out)"
    unfolding step6_rows by (rule filter_full_length)
  from l7 l6 l5 l2 have len5: "length (rows out) = length (rows (step5 out))"
    unfolding o2_out by linarith
  have gk: "map fst (rows out) = group_keys [] (map fst (rows (step5 out)))"
    using arg_cong [OF out'', of "\<lambda>t. map fst (rows t)"]
    unfolding o2_out rows_step7_keys s6 .
  have "length (group_keys [] (map fst (rows (step5 out)))) = length (map fst (rows out))"
    by (simp only: gk)
  also have "\<dots> = length (rows out)" by simp
  also have "\<dots> = length (rows (step5 out))" by (rule len5)
  also have "\<dots> = length (map fst (rows (step5 out)))" by simp
  finally have "group_keys [] (map fst (rows (step5 out))) = map fst (rows (step5 out))"
    by (rule group_keys_full_length)
  then have "map fst (rows (step5 out)) = map fst (rows out)"
    using gk by simp
  then have "map (\<lambda>r. case fst r of None \<Rightarrow> None
               | Some s \<Rightarrow> if prefix ''k77'' s then extract_repid s else Some s) (rows out)
             = map fst (rows out)"
    by (simp add: step5_rows comp_def)
  with r have fixed: "(case fst r of None \<Rightarrow> None
               | Some s \<Rightarrow> if prefix ''k77'' s then extract_repid s else Some s) = fst r"
    by (simp add: map_eq_conv)
  have "\<not> prefix ''k77'' s" if "fst r = Some s" for s
  proof
    assume "prefix ''k77'' s"
    then have "extract_repid s = Some s" using fixed that by simp
    from extract_repid_sublist(3) [OF this] show False by simp
  qed
  with zero show ?thesis by blast
qed

lemma prefix_take: "prefix p xs \<longleftrightarrow> take (length p) xs = p"
  by (metis append_eq_conv_conj prefix_def take_is_prefix)

lemma repid_match_at_0:
  "repid_match_at (c # s) 0 \<longleftrightarrow>
     starts_with (c # s) ''RepID='' \<and> takeWhile (\<lambda>x. x \<noteq> CHR ''|'') (drop 6 (c # s)) \<noteq> []"
proof -
  have len: "length ''RepID='' = 6" by simp
  have a: "starts_with (c # s) ''RepID='' \<longleftrightarrow> take 6 (c # s) = ''RepID=''"
    unfolding starts_with_prefix prefix_take len ..
  have b: "takeWhile (\<lambda>x. x \<noteq> CHR ''|'') (drop 6 (c # s)) \<noteq> [] \<longleftrightarrow>
      6 < length (c # s) \<and> (c # s) ! 6 \<noteq> CHR ''|''"
    by (auto simp: takeWhile_eq_Nil_iff hd_drop_conv_nth simp del: drop_Suc_Cons nth_Cons_Suc)
  show ?thesis
    unfolding repid_match_at_def drop_0 add_0 using a b by blast
qed

lemma repid_match_at_Suc: "repid_match_at (c # s) (Suc i) \<longleftrightarrow> repid_match_at s i"
  by (simp only: repid_match_at_def add_Suc drop_Suc_Cons nth_Cons_Suc length_Cons Suc_less_eq)

lemma extract_repid_Cons:
  "extract_repid (c # s) =
     (if repid_match_at (c # s) 0 then Some (takeWhile (\<lambda>x. x \<noteq> CHR ''|'') (drop 6 (c # s)))
      else extract_repid s)"
  by (simp only: extract_repid.simps repid_match_at_0)

lemma extract_repid_no_match: "\<forall>i. \<not> repid_match_at s i \<Longrightarrow> extract_repid s = None"
proof (induction s)
  case Nil
  then show ?case by simp
next
  case (Cons c s)
  have "\<forall>i. \<not> repid_match_at s i"
    using Cons.prems repid_match_at_Suc [of c s] by blast
  then have "extract_repid s = None" by (rule Cons.IH)
  moreover have "\<not> repid_match_at (c # s) 0" using Cons.prems by blast
  ultimately show ?case by (simp only: extract_repid_Cons if_False)
qed

lemma extract_repid_first_match:
  "repid_match_at s i \<Longrightarrow> \<forall>j<i. \<not> repid_match_at s j \<Longrightarrow>
     extract_repid s = Some (takeWhile (\<lambda>x. x \<noteq> CHR ''|'') (drop (i + 6) s))"
proof (induction s arbitrary: i)
  case Nil
  then show ?case by (simp add: repid_match_at_def)
next
  case (Cons c s)
  show ?case
  proof (cases i)
    case 0
    then have "repid_match_at (c # s) 0" using Cons.prems(1) by simp
    then show ?thesis using 0 by (simp only: extract_repid_Cons if_True add_0)
  next
    case (Suc k)
    then have no0: "\<not> repid_match_at (c # s) 0" using Cons.prems(2) by blast
    have mk: "repid_match_at s k" using Cons.prems(1) Suc by (simp add: repid_match_at_Suc)
    have "\<forall>j<k. \<not> repid_match_at s j"
    proof (intro allI impI)
      fix j assume "j < k"
      then have "\<not> repid_match_at (c # s) (Suc j)" using Cons.prems(2) Suc by simp
      then show "\<not> repid_match_at s j" by (simp add: repid_match_at_Suc)
    qed
    from Cons.IH [OF mk this]
    have ih: "extract_repid s = Some (takeWhile (\<lambda>x. x \<noteq> CHR ''|'') (drop (k + 6) s))" .
    have d: "drop (Suc k + 6) (c # s) = drop (k + 6) s"
      by (simp only: add_Suc drop_Suc_Cons)
    have e: "extract_repid (c # s) = extract_repid s"
      using no0 by (simp only: extract_repid_Cons if_False)
    show ?thesis unfolding Suc d e by (rule ih)
  qed
qed


section \<open>The claims\<close>

text \<open>
  C1. On the scenario table (identifiers \<open>""\<close>, \<open>CONTAM_A\<close>,
  \<open>P1|RepID=unknown\<close>, \<open>k77x|RepID=Q1|y\<close>, \<open>Q1\<close>, \<open>W1WC08_9ZZZZ\<close> with
  intensities [5,0], [10,10], [0,0], [2,0], [3,5], [9,9]) the constructor followed by
  the seven steps in order returns exactly one row, \<open>Q1\<close> with S1 = 5 and S2 = 5.
\<close>

theorem end_to_end_scenario:
  "pipeline \<lparr>columns = [''protein'', ''S1'', ''S2''],
     rows = [(Some '''', [Some 5, Some 0]),
             (Some ''CONTAM_A'', [Some 10, Some 10]),
             (Some ''P1|RepID=unknown'', [Some 0, Some 0]),
             (Some ''k77x|RepID=Q1|y'', [Some 2, Some 0]),
             (Some ''Q1'', [Some 3, Some 5]),
             (Some ''W1WC08_9ZZZZ'', [Some 9, Some 9])]\<rparr>
   = Inr \<lparr>columns = [''protein'', ''S1'', ''S2''],
          rows = [(Some ''Q1'', [Some (5::int), Some 5])]\<rparr>"
  by code_simp



text \<open>
  C3, as the code has it. The output of a run has no null or empty identifier, no
  identifier with the contaminant, unknown-RepID or blacklist markers, and no
  identifier twice. A second run on it returns it unchanged exactly when no
  identifier of the output starts with \<open>k77\<close> and no output row has all its
  intensities zero. (Step 5 rewrites an output identifier that starts with \<open>k77\<close>
  again, and step 2 drops an output row whose sums are all zero.)
\<close>

theorem rerun_on_own_output:
  assumes "run_filters t = Inr out"
  shows "(\<forall>r \<in> set (rows out). \<exists>s. fst r = Some s \<and> clean_identifier s)
    \<and> distinct (map fst (rows out))
    \<and> (run_filters out = Inr out \<longleftrightarrow>
         (\<forall>r \<in> set (rows out). (\<forall>s. fst r = Some s \<longrightarrow> \<not> prefix ''k77'' s) \<and>
                                 \<not> list_all (\<lambda>v. v = None \<or> v = Some 0) (snd r)))"
proof -
  from assms obtain t2 where t2: "step2 (step1 t) = Inr t2"
    and out: "out = step7 (step6 (step5 (step4 (step3 t2))))"
    by (rule run_filters_InrD)
  have clean: "\<forall>r \<in> set (rows out). \<exists>s. fst r = Some s \<and> clean_identifier s"
    using run_filters_ids_clean [OF assms] by blast
  have dist: "distinct (map fst (rows out))"
    unfolding out rows_step7_keys by (rule distinct_group_keys)
  have vc: "value_cols out \<noteq> []"
    using run_filters_value_cols(1) [OF assms] step2_InrD(1) [OF t2]
    by (simp add: value_cols_cong [OF columns_step1])
  have "run_filters out = Inr out"
    if k77: "\<forall>r \<in> set (rows out). \<forall>s. fst r = Some s \<longrightarrow> \<not> prefix ''k77'' s"
      and nz: "\<forall>r \<in> set (rows out). \<not> list_all (\<lambda>v. v = None \<or> v = Some 0) (snd r)"
  proof -
    have "\<forall>r \<in> set (rows out).
            \<not> (\<forall>c \<in> set (value_cols out). col out c r = None \<or> col out c r = Some 0)"
      using nz step7_row_zero unfolding out by blast
    then have 2: "step2 out = Inr out" by (rule step2_id [OF vc])
    have 7: "step7 out = out" unfolding out by (rule step7_idempotent)
    show ?thesis
      by (simp add: run_filters_def step1_id [OF clean] 2 step3_id [OF clean] step4_id [OF clean]
            step5_id [OF k77] step6_id [OF clean] 7)
  qed
  moreover have "(\<forall>s. fst r = Some s \<longrightarrow> \<not> prefix ''k77'' s) \<and>
         \<not> list_all (\<lambda>v. v = None \<or> v = Some 0) (snd r)"
    if "run_filters out = Inr out" "r \<in> set (rows out)" for r
    using rerun_fixed_point_needs [OF assms that] .
  ultimately show ?thesis using clean dist by blast
qed

theorem rerun_on_own_output_witness:
  "run_filters \<lparr>columns = [''protein'', ''S1'', ''S2''],
      rows = [(Some ''k77x|RepID=Q1|y'', [Some (2::int), Some 0]), (Some ''Q1'', [Some 3, None]),
              (Some ''P2'', [Some 0, Some 4])]\<rparr>
     = Inr \<lparr>columns = [''protein'', ''S1'', ''S2''],
            rows = [(Some ''Q1'', [Some 5, Some 0]), (Some ''P2'', [Some 0, Some 4])]\<rparr>
   \<and> run_filters \<lparr>columns = [''protein'', ''S1'', ''S2''],
            rows = [(Some ''Q1'', [Some (5::int), Some 0]), (Some ''P2'', [Some 0, Some 4])]\<rparr>
     = Inr \<lparr>columns = [''protein'', ''S1'', ''S2''],
            rows = [(Some ''Q1'', [Some 5, Some 0]), (Some ''P2'', [Some 0, Some 4])]\<rparr>"
proof -
  let ?t = "\<lparr>columns = [''protein'', ''S1'', ''S2''],
      rows = [(Some ''k77x|RepID=Q1|y'', [Some (2::int), Some 0]), (Some ''Q1'', [Some 3, None]),
              (Some ''P2'', [Some 0, Some 4])]\<rparr>"
  let ?out = "\<lparr>columns = [''protein'', ''S1'', ''S2''],
            rows = [(Some ''Q1'', [Some (5::int), Some 0]), (Some ''P2'', [Some 0, Some 4])]\<rparr>"
  have run: "run_filters ?t = Inr ?out" by code_simp
  have hyp: "\<forall>r \<in> set (rows ?out). (\<forall>s. fst r = Some s \<longrightarrow> \<not> prefix ''k77'' s) \<and>
                                \<not> list_all (\<lambda>v. v = None \<or> v = Some 0) (snd r)"
    by simp
  from rerun_on_own_output [OF run] hyp have "run_filters ?out = Inr ?out" by blast
  with run show ?thesis by simp
qed

text \<open>
  The claim without the proviso fails: the identifier \<open>k77a|RepID=k77b\<close> becomes
  \<open>k77b\<close>, which the second run rewrites to null and step 6 then removes.
\<close>

theorem rerun_changes_k77_output:
  "run_filters \<lparr>columns = [''protein'', ''S1''], rows = [(Some ''k77a|RepID=k77b'', [Some (1::int)])]\<rparr>
     = Inr \<lparr>columns = [''protein'', ''S1''], rows = [(Some ''k77b'', [Some 1])]\<rparr>
   \<and> run_filters \<lparr>columns = [''protein'', ''S1''], rows = [(Some ''k77b'', [Some (1::int)])]\<rparr>
     = Inr \<lparr>columns = [''protein'', ''S1''], rows = []\<rparr>
   \<and> run_filters \<lparr>columns = [''protein'', ''S1''], rows = [(Some ''k77b'', [Some (1::int)])]\<rparr>
     \<noteq> Inr \<lparr>columns = [''protein'', ''S1''], rows = [(Some ''k77b'', [Some 1])]\<rparr>"
  by code_simp

text \<open>
  C4. With no intensity column the loop of step 2 never assigns the mask, and
  \<open>~mask\<close> raises TypeError: step 2, and with it the whole run, ends in the
  exception and removes no row.
\<close>

theorem step2_no_intensity_column_raises:
  "step2 \<lparr>columns = [''protein''], rows = [(Some ''P1'', [] :: int option list)]\<rparr> = Inl TypeError
   \<and> pipeline \<lparr>columns = [''protein''], rows = [(Some ''P1'', [] :: int option list)]\<rparr> = Inl TypeError"
  by (simp add: step2_def step2_mask_def value_cols_def pipeline_def init_def read_excel_def
        run_filters_def step1_def filter_rows_def)

text \<open>
  C5. Step 5 keeps the columns and the intensities of every row; an identifier that
  starts with \<open>k77\<close> is replaced by what the pattern extracts from it, every other
  identifier (a null one too) is left as it is. The extraction is the first capture
  group: when the pattern matches nowhere in the identifier (in particular when the
  identifier has no \<open>RepID=\<close>) it is null, and otherwise it is the run of characters
  other than \<open>|\<close> that follows \<open>RepID=\<close> at the leftmost match, up to the next
  \<open>|\<close> or the end of the identifier.
\<close>

theorem step5_rewrites_k77:
  "columns (step5 t) = columns t
   \<and> rows (step5 t) =
       map (\<lambda>r. (case fst r of None \<Rightarrow> None
                 | Some s \<Rightarrow> if prefix ''k77'' s then extract_repid s else Some s, snd r)) (rows t)
   \<and> (\<forall>s. \<not> sublist ''RepID='' s \<longrightarrow> extract_repid s = None)
   \<and> (\<forall>s v. extract_repid s = Some v \<longrightarrow>
        (\<exists>pre post. s = pre @ ''RepID='' @ v @ post \<and> v \<noteq> [] \<and> CHR ''|'' \<notin> set v \<and>
           (post = [] \<or> hd post = CHR ''|'')))
   \<and> (\<forall>s. (\<forall>i. \<not> repid_match_at s i) \<longrightarrow> extract_repid s = None)
   \<and> (\<forall>s i. repid_match_at s i \<and> (\<forall>j<i. \<not> repid_match_at s j) \<longrightarrow>
        extract_repid s = Some (takeWhile (\<lambda>x. x \<noteq> CHR ''|'') (drop (i + 6) s)))"
  using step5_rows [of t] columns_step5 [of t] extract_repid_no_RepID extract_repid_SomeD
    extract_repid_no_match extract_repid_first_match
  by blast

text \<open>
  A rewritten identifier, one left alone, one with no \<open>RepID=\<close>, a null one, and
  one whose first \<open>RepID=\<close> is followed by \<open>|\<close>, so that the match is at the
  second.
\<close>

theorem step5_rewrites_k77_witness:
  "rows (step5 \<lparr>columns = [''protein'', ''S1''],
                 rows = [(Some ''k77_cluster|RepID=ABC123|rest'', [Some (1::int)]),
                         (Some ''sp|P1'', [Some 2]),
                         (Some ''k77_orphan'', [Some 3]),
                         (None, [Some 4]),
                         (Some ''k77|RepID=|RepID=Q9'', [Some 5])]\<rparr>)
   = [(Some ''ABC123'', [Some 1]), (Some ''sp|P1'', [Some 2]), (None, [Some 3]), (None, [Some 4]),
      (Some ''Q9'', [Some 5])]
   \<and> \<not> sublist ''RepID='' ''k77_orphan'' \<and> extract_repid ''k77_orphan'' = None
   \<and> repid_match_at ''k77|RepID=Q1|y'' 4 \<and> \<not> repid_match_at ''k77|RepID=Q1|y'' 0
   \<and> extract_repid ''k77|RepID=Q1|y'' = Some ''Q1''"
proof -
  have m: "repid_match_at ''k77|RepID=Q1|y'' 4" by (simp add: repid_match_at_def)
  have "\<not> repid_match_at ''k77|RepID=Q1|y'' j" if "j < 4" for j
  proof -
    from that have "j = 0 \<or> j = 1 \<or> j = 2 \<or> j = 3" by arith
    then show ?thesis by (auto simp: repid_match_at_def)
  qed
  then have l: "\<forall>j<4. \<not> repid_match_at ''k77|RepID=Q1|y'' j" by blast
  from step5_rewrites_k77 [of "\<lparr>columns = [''protein'', ''S1''],
                 rows = [(Some ''k77_cluster|RepID=ABC123|rest'', [Some (1::int)]),
                         (Some ''sp|P1'', [Some 2]),
                         (Some ''k77_orphan'', [Some 3]),
                         (None, [Some 4]),
                         (Some ''k77|RepID=|RepID=Q9'', [Some 5])]\<rparr>"] m l
  show ?thesis by (simp add: contains_lit_sublist [symmetric])
qed

text \<open>
  C6. The intensity columns of the result of a successful run are those of the
  input, names and order: all the columns of the input frame but the first. Each
  step on its own leaves the list of intensity columns as it is.
\<close>

theorem intensity_columns_preserved:
  "(pipeline df = Inr out \<longrightarrow>
      value_cols out = tl (columns df) \<and> columns out = ''protein'' # tl (columns df))
   \<and> (run_filters t = Inr out' \<longrightarrow> value_cols out' = value_cols t)
   \<and> value_cols (step1 t) = value_cols t
   \<and> (step2 t = Inr t2 \<longrightarrow> value_cols t2 = value_cols t)
   \<and> value_cols (step3 t) = value_cols t
   \<and> value_cols (step4 t) = value_cols t
   \<and> value_cols (step5 t) = value_cols t
   \<and> value_cols (step6 t) = value_cols t
   \<and> value_cols (step7 t) = value_cols t"
proof -
  have "value_cols out = tl (columns df) \<and> columns out = ''protein'' # tl (columns df)"
    if "pipeline df = Inr out"
  proof -
    from that obtain t0 where t0: "init df = Inr t0" and r: "run_filters t0 = Inr out"
      by (rule pipeline_InrD)
    show ?thesis using init_columns [OF t0] run_filters_value_cols [OF r] by simp
  qed
  moreover have "value_cols t2 = value_cols t" if "step2 t = Inr t2"
    by (rule value_cols_cong [OF columns_step2 [OF that]])
  ultimately show ?thesis
    by (simp add: run_filters_value_cols value_cols_step7
          value_cols_cong [OF columns_step1] value_cols_cong [OF columns_step3]
          value_cols_cong [OF columns_step4] value_cols_cong [OF columns_step5]
          value_cols_cong [OF columns_step6])
qed

theorem intensity_columns_preserved_witness:
  "pipeline \<lparr>columns = [''Unnamed: 0'', ''S1'', ''S2''],
             rows = [(Some ''Q1'', [Some (3::int), Some 5]), (Some ''Q1'', [None, Some 1])]\<rparr>
     = Inr \<lparr>columns = [''protein'', ''S1'', ''S2''], rows = [(Some ''Q1'', [Some 3, Some 6])]\<rparr>
   \<and> value_cols \<lparr>columns = [''protein'', ''S1'', ''S2''], rows = [(Some ''Q1'', [Some (3::int), Some 6])]\<rparr>
     = [''S1'', ''S2'']"
proof -
  let ?df = "\<lparr>columns = [''Unnamed: 0'', ''S1'', ''S2''],
             rows = [(Some ''Q1'', [Some (3::int), Some 5]), (Some ''Q1'', [None, Some 1])]\<rparr>"
  let ?out = "\<lparr>columns = [''protein'', ''S1'', ''S2''], rows = [(Some ''Q1'', [Some (3::int), Some 6])]\<rparr>"
  have p: "pipeline ?df = Inr ?out" by code_simp
  from intensity_columns_preserved [of ?df ?out ?out ?out ?out] p show ?thesis by simp
qed




text \<open>
  C8. Step 1 keeps the columns and keeps exactly the rows whose identifier is neither
  null nor the empty string, whatever their intensities; a row whose identifier is a
  single space is kept.
\<close>

theorem step1_removes_null_or_empty:
  "rows (step1 t) = filter (\<lambda>r. fst r \<noteq> None \<and> fst r \<noteq> Some '''') (rows t)
   \<and> columns (step1 t) = columns t
   \<and> rows (step1 (t\<lparr>rows := [(Some '' '', vs)]\<rparr>)) = [(Some '' '', vs)]"
  by (simp add: step1_rows columns_step1)

theorem step1_removes_null_or_empty_witness:
  "rows (step1 \<lparr>columns = [''protein'', ''S1''],
                 rows = [(None, [Some (1::int)]), (Some '''', [Some 2]),
                         (Some '' '', [None]), (Some ''P1'', [Some 0])]\<rparr>)
   = [(Some '' '', [None]), (Some ''P1'', [Some 0])]"
  using step1_removes_null_or_empty [of "\<lparr>columns = [''protein'', ''S1''],
                 rows = [(None, [Some (1::int)]), (Some '''', [Some 2]),
                         (Some '' '', [None]), (Some ''P1'', [Some 0])]\<rparr>"]
  by simp

text \<open>
  C9. On a null identifier the predicate of step 6 is null, and step 6 keeps only rows
  whose identifier is a string without a blacklist entry: no row with a null
  identifier is in its result, in the table that step 7 groups after step 5 and step
  6, or in the result of a run.
\<close>

theorem step6_removes_null_identifiers:
  "k_not (str_contains None pattern) = None
   \<and> rows (step6 t) =
       filter (\<lambda>r. \<exists>s. fst r = Some s \<and> (\<forall>b \<in> set blacklist. \<not> sublist b s)) (rows t)
   \<and> (\<forall>r \<in> set (rows (step6 t)). fst r \<noteq> None)
   \<and> (\<forall>r \<in> set (rows (step7 (step6 (step5 t)))). fst r \<noteq> None)
   \<and> (\<forall>out. run_filters t = Inr out \<longrightarrow> (\<forall>r \<in> set (rows out). fst r \<noteq> None))"
proof -
  have 6: "\<forall>r \<in> set (rows (step6 u)). fst r \<noteq> None" for u :: "'a table"
    using step6_no_null by blast
  have "\<forall>r \<in> set (rows out). fst r \<noteq> None" if "run_filters t = Inr out" for out
  proof -
    from that obtain t2 where "out = step7 (step6 (step5 (step4 (step3 t2))))"
      by (rule run_filters_InrD)
    then show ?thesis using step7_ids_not_null [OF 6] by simp
  qed
  then show ?thesis
    using step7_ids_not_null [OF 6, of "step5 t"] 6 [of t] step6_rows [of t]
    by (simp add: k_not_def str_contains_def)
qed

theorem step6_removes_null_identifiers_witness:
  "rows (step5 \<lparr>columns = [''protein'', ''S1''],
                 rows = [(Some ''k77_orphan'', [Some (1::int)]), (None, [Some 2]), (Some ''P1'', [Some 3])]\<rparr>)
     = [(None, [Some 1]), (None, [Some 2]), (Some ''P1'', [Some 3])]
   \<and> rows (step6 (step5 \<lparr>columns = [''protein'', ''S1''],
                 rows = [(Some ''k77_orphan'', [Some (1::int)]), (None, [Some 2]), (Some ''P1'', [Some 3])]\<rparr>))
     = [(Some ''P1'', [Some 3])]
   \<and> run_filters \<lparr>columns = [''protein'', ''S1''],
                 rows = [(Some ''k77_orphan'', [Some (1::int)]), (None, [Some 2]), (Some ''P1'', [Some 3])]\<rparr>
     = Inr \<lparr>columns = [''protein'', ''S1''], rows = [(Some ''P1'', [Some 3])]\<rparr>"
proof -
  let ?t = "\<lparr>columns = [''protein'', ''S1''],
                 rows = [(Some ''k77_orphan'', [Some (1::int)]), (None, [Some 2]), (Some ''P1'', [Some 3])]\<rparr>"
  have 5: "rows (step5 ?t) = [(None, [Some 1]), (None, [Some 2]), (Some ''P1'', [Some 3])]"
    by code_simp
  have 6: "rows (step6 (step5 ?t)) = [(Some ''P1'', [Some 3])]"
    by code_simp
  have r: "run_filters ?t = Inr \<lparr>columns = [''protein'', ''S1''], rows = [(Some ''P1'', [Some 3])]\<rparr>"
    by code_simp
  from step6_removes_null_identifiers [of "step5 ?t"] 5 6 r show ?thesis by simp
qed



end
